theory Spec2Isabelle
  imports Main "HOL-Library.Sublist"
begin

section \<open>The stopwatch and its activity log (src/App.js)\<close>

text \<open>
  The application keeps three pieces of React state: \<open>timerRunning\<close> and
  \<open>timerSeconds\<close> in \<open>ClockScreen\<close>, and \<open>activityLog\<close> in \<open>App\<close>. The reference
  \<open>timerIntervalRef\<close> holds the identifier of the last interval that was scheduled.
  A JavaScript number is a binary64 value. The numbers of this program are whole, and an
  \<open>int\<close> stands for the number of that value: every whole number of magnitude up to
  \<open>2 ^ 53\<close> is one, and beyond that only those with a significand of 53 bits. The division
  and the conversion to a string are modelled with the rounding of binary64. The
  increment of the counter is modelled exactly; the source's sum is exact below \<open>2 ^ 53\<close>.
\<close>

subsection \<open>Numbers and strings of JavaScript\<close>

text \<open>The number of binary digits of a natural number.\<close>

fun bitLength :: "nat \<Rightarrow> nat" where
  "bitLength n = (if n = 0 then 0 else Suc (bitLength (n div 2)))"

declare bitLength.simps [simp del]

text \<open>The integer nearest to \<open>n / d\<close>, a tie going to the even one.\<close>

definition roundHalfEven :: "nat \<Rightarrow> nat \<Rightarrow> nat" where
  "roundHalfEven n d =
     (let q = n div d; r = n mod d
      in if d < 2 * r \<or> (2 * r = d \<and> odd q) then q + 1 else q)"

text \<open>The fraction \<open>a / (b * 2 ^ e)\<close> for an exponent \<open>e\<close> of either sign.\<close>

definition scaledQuotient :: "int \<Rightarrow> nat \<Rightarrow> nat \<Rightarrow> nat \<times> nat" where
  "scaledQuotient e a b = (a * 2 ^ nat (- e), b * 2 ^ nat e)"

text \<open>
  The quotient \<open>a / b\<close> of two positive whole numbers in binary64: the pair \<open>(m, e)\<close>
  stands for \<open>m * 2 ^ e\<close>, where \<open>e\<close> is the exponent at which the quotient has a
  significand of 53 bits and \<open>m\<close> is that significand, rounded to nearest, ties to even.
  The exponent range of binary64 is not modelled: no quotient of a whole number by 3600 or
  60 leaves it.
\<close>

definition divideNumbers :: "nat \<Rightarrow> nat \<Rightarrow> nat \<times> int" where
  "divideNumbers a b =
     (let e0 = int (bitLength a) - int (bitLength b) - 53;
          e = (case scaledQuotient e0 a b of
                 (n, d) \<Rightarrow> if n div d < 2 ^ 53 then e0 else e0 + 1)
      in case scaledQuotient e a b of (n, d) \<Rightarrow> (roundHalfEven n d, e))"

text \<open>\<open>Math.floor\<close> of \<open>x * 2 ^ e\<close>.\<close>

definition floorScaled :: "int \<Rightarrow> int \<Rightarrow> int" where
  "floorScaled x e = (if 0 \<le> e then x * 2 ^ nat e else x div 2 ^ nat (- e))"

text \<open>
  \<open>Math.floor(a / b)\<close> on whole numbers with a non-zero divisor: the quotient is rounded
  to binary64 first and floored afterwards.
\<close>

definition mathFloorDiv :: "int \<Rightarrow> int \<Rightarrow> int" where
  "mathFloorDiv a b =
     (case divideNumbers (nat \<bar>a\<bar>) (nat \<bar>b\<bar>) of
        (m, e) \<Rightarrow> floorScaled (sgn a * sgn b * int m) e)"

text \<open>The binary64 value nearest to a natural number.\<close>

definition nearestNumber :: "nat \<Rightarrow> nat" where
  "nearestNumber y = (case divideNumbers y 1 of (m, e) \<Rightarrow> nat (floorScaled (int m) e))"

text \<open>
  The operator \<open>%\<close>: the remainder takes the sign of the dividend (it truncates, it does
  not floor). Only the constant divisors 3600 and 60 occur in the source.
\<close>

definition jsRemainder :: "int \<Rightarrow> int \<Rightarrow> int" where
  "jsRemainder a b = sgn a * (\<bar>a\<bar> mod \<bar>b\<bar>)"

definition digitChar :: "nat \<Rightarrow> char" where
  "digitChar d = char_of (48 + d)"

text \<open>The decimal digits of a natural number, most significant first, no leading zero.\<close>

fun natToString :: "nat \<Rightarrow> string" where
  "natToString n =
     (if n < 10 then [digitChar n] else natToString (n div 10) @ [digitChar (n mod 10)])"

declare natToString.simps [simp del]

text \<open>
  The conversion of a number to a string takes the shortest decimal \<open>s * 10 ^ (n - k)\<close>,
  with \<open>k\<close> digits in \<open>s\<close>, whose nearest number is the given one. For a whole number \<open>x\<close>
  of \<open>d\<close> digits, \<open>x\<close> itself is such a decimal, so \<open>k \<le> d\<close>, and \<open>n\<close> is \<open>d\<close> or \<open>d + 1\<close>.
\<close>

definition representsNumber :: "nat \<Rightarrow> nat \<Rightarrow> nat \<times> nat \<Rightarrow> bool" where
  "representsNumber x k c =
     (case c of (s, n) \<Rightarrow>
        10 ^ (k - 1) \<le> s \<and> s < 10 ^ k \<and> nearestNumber (s * 10 ^ (n - k)) = x)"

text \<open>
  With \<open>k\<close> digits, the decimals next to \<open>x\<close> from below and from above, for both values
  of \<open>n\<close>; those that read back as \<open>x\<close> are kept.
\<close>

definition decimalCandidates :: "nat \<Rightarrow> nat \<Rightarrow> (nat \<times> nat) list" where
  "decimalCandidates x k =
     (let d = length (natToString x)
      in filter (representsNumber x k)
           [(x div 10 ^ (d - k), d), (x div 10 ^ (d - k) + 1, d),
            (x div 10 ^ (d + 1 - k), d + 1), (x div 10 ^ (d + 1 - k) + 1, d + 1)])"

definition distanceTo :: "nat \<Rightarrow> nat \<Rightarrow> nat \<times> nat \<Rightarrow> nat" where
  "distanceTo x k c = (case c of (s, n) \<Rightarrow>
     (if x \<le> s * 10 ^ (n - k) then s * 10 ^ (n - k) - x else x - s * 10 ^ (n - k)))"

text \<open>Among several candidates the one closest to \<open>x\<close> wins, and the even one in a tie.\<close>

fun closest :: "nat \<Rightarrow> nat \<Rightarrow> nat \<times> nat \<Rightarrow> (nat \<times> nat) list \<Rightarrow> nat \<times> nat" where
  "closest x k c [] = c"
| "closest x k c (c' # cs) =
     (if distanceTo x k c' < distanceTo x k c
         \<or> (distanceTo x k c' = distanceTo x k c \<and> even (fst c') \<and> odd (fst c))
      then closest x k c' cs else closest x k c cs)"

text \<open>The digits \<open>s\<close> and the exponent \<open>n\<close> for the least \<open>k\<close> that has a candidate.\<close>

definition shortestDecimal :: "nat \<Rightarrow> nat \<times> nat" where
  "shortestDecimal x =
     (let d = length (natToString x)
      in case filter (\<lambda>k. decimalCandidates x k \<noteq> []) [1..<Suc d] of
           [] \<Rightarrow> (x, d)
         | k # _ \<Rightarrow> (case decimalCandidates x k of
                       [] \<Rightarrow> (x, d)
                     | c # cs \<Rightarrow> closest x k c cs))"

text \<open>
  The digits are followed by zeros up to \<open>n\<close> places while \<open>n \<le> 21\<close>; from \<open>10 ^ 21\<close> on
  the string is in exponent notation.
\<close>

definition decimalToString :: "nat \<Rightarrow> string" where
  "decimalToString x =
     (case shortestDecimal x of (s, n) \<Rightarrow>
        (let ds = natToString s; k = length ds
         in if n \<le> 21 then ds @ replicate (n - k) (CHR ''0'')
            else if k = 1 then ds @ ''e+'' @ natToString (n - 1)
            else hd ds # ''.'' @ tl ds @ ''e+'' @ natToString (n - 1)))"

text \<open>Zero is printed as \<open>0\<close>.\<close>

definition positiveToString :: "nat \<Rightarrow> string" where
  "positiveToString x = (if x = 0 then ''0'' else decimalToString x)"

text \<open>\<open>String(v)\<close> and \<open>v.toString()\<close> for a whole number \<open>v\<close>.\<close>

definition numberToString :: "int \<Rightarrow> string" where
  "numberToString v =
     (if v < 0 then CHR ''-'' # positiveToString (nat (- v)) else positiveToString (nat v))"

text \<open>\<open>s.padStart(n, c)\<close> with a filler of one character.\<close>

definition padStart :: "nat \<Rightarrow> char \<Rightarrow> string \<Rightarrow> string" where
  "padStart n c s = replicate (n - length s) c @ s"

text \<open>\<open>xs.join(sep)\<close> on an array of strings.\<close>

fun join :: "string \<Rightarrow> string list \<Rightarrow> string" where
  "join sep [] = []"
| "join sep [x] = x"
| "join sep (x # y # ys) = x @ sep @ join sep (y # ys)"

subsection \<open>formatTime (App.js, lines 39-47)\<close>

text \<open>
  The mapped function \<open>v => v < 10 ? '0' + v : v\<close> yields a string below ten and leaves
  the number otherwise; \<open>join\<close> then converts every element to a string.
\<close>

definition formatField :: "int \<Rightarrow> string" where
  "formatField v = (if v < 10 then CHR ''0'' # numberToString v else numberToString v)"

definition formatTime :: "int \<Rightarrow> string" where
  "formatTime totalSeconds =
     (let hours = mathFloorDiv totalSeconds 3600;
          minutes = mathFloorDiv (jsRemainder totalSeconds 3600) 60;
          seconds = jsRemainder totalSeconds 60
      in join '':'' (map formatField [hours, minutes, seconds]))"

subsection \<open>Activities and the state of the application\<close>

record activity =
  activityId :: int
  description :: string
  durationSeconds :: int
  timestamp :: int

text \<open>
  The field \<open>activityId\<close> is the source's \<open>id\<close> (the reading of \<open>Date.now()\<close>, in
  milliseconds); \<open>timestamp\<close> is the instant whose ISO rendering the source stores.
  Both clock readings are inputs of the handler.

  Besides the React state, the record below holds what the JavaScript runtime keeps:
  the intervals that are scheduled (\<open>activeIntervals\<close>), the next identifier that
  \<open>setInterval\<close> hands out, and the alerts shown so far (title and message).
\<close>

record appState =
  timerRunning :: bool
  timerSeconds :: int
  timerIntervalRef :: "nat option"
  activityLog :: "activity list"
  activeIntervals :: "nat list"
  nextIntervalId :: nat
  alerts :: "(string \<times> string) list"

subsection \<open>The display path of the log (App.js, lines 136-148)\<close>

text \<open>The three padded fields of \<open>renderActivityItem\<close>, with the colons between them.\<close>

definition renderDuration :: "activity \<Rightarrow> string" where
  "renderDuration item =
     padStart 2 (CHR ''0'') (numberToString (mathFloorDiv (durationSeconds item) 3600))
     @ '':'' @
     padStart 2 (CHR ''0'')
       (numberToString (mathFloorDiv (jsRemainder (durationSeconds item) 3600) 60))
     @ '':'' @
     padStart 2 (CHR ''0'') (numberToString (jsRemainder (durationSeconds item) 60))"

text \<open>The whole text of the duration line of one entry.\<close>

definition renderActivityDuration :: "activity \<Rightarrow> string" where
  "renderActivityDuration item = ''Duration: '' @ renderDuration item"

subsection \<open>The log (App.js, lines 190-196)\<close>

text \<open>The updater \<open>prevLog => [activity, ...prevLog]\<close>.\<close>

definition addActivity :: "activity \<Rightarrow> activity list \<Rightarrow> activity list" where
  "addActivity a prevLog = a # prevLog"

subsection \<open>Intervals\<close>

text \<open>\<open>setInterval\<close> schedules a new interval and returns its identifier.\<close>

definition setInterval :: "appState \<Rightarrow> nat \<times> appState" where
  "setInterval st =
     (nextIntervalId st,
      st\<lparr>activeIntervals := activeIntervals st @ [nextIntervalId st],
         nextIntervalId := Suc (nextIntervalId st)\<rparr>)"

text \<open>\<open>clearInterval\<close> ignores \<open>null\<close> and identifiers that are not scheduled.\<close>

definition clearInterval :: "nat option \<Rightarrow> appState \<Rightarrow> appState" where
  "clearInterval h st =
     (case h of
        None \<Rightarrow> st
      | Some i \<Rightarrow> st\<lparr>activeIntervals := removeAll i (activeIntervals st)\<rparr>)"

text \<open>The callback of the timer interval: \<open>setTimerSeconds(prevSeconds => prevSeconds + 1)\<close>.\<close>

definition timerCallback :: "appState \<Rightarrow> appState" where
  "timerCallback st = st\<lparr>timerSeconds := timerSeconds st + 1\<rparr>"

text \<open>An interval fires only while it is scheduled.\<close>

definition intervalFires :: "nat \<Rightarrow> appState \<Rightarrow> appState" where
  "intervalFires i st = (if i \<in> set (activeIntervals st) then timerCallback st else st)"

text \<open>One period of the timer passes: every scheduled interval fires once.\<close>

definition tick :: "appState \<Rightarrow> appState" where
  "tick st = fold intervalFires (activeIntervals st) st"

subsection \<open>The timer effect (App.js, lines 25-36)\<close>

definition timerEffect :: "appState \<Rightarrow> appState" where
  "timerEffect st =
     (if timerRunning st
      then (case setInterval st of (i, st') \<Rightarrow> st'\<lparr>timerIntervalRef := Some i\<rparr>)
      else clearInterval (timerIntervalRef st) st)"

definition timerEffectCleanup :: "appState \<Rightarrow> appState" where
  "timerEffectCleanup st = clearInterval (timerIntervalRef st) st"

text \<open>
  After a handler has run, React renders again; the effect depends on \<open>timerRunning\<close>
  alone, so its cleanup and its body run exactly when that value has changed.
\<close>

definition rerender :: "bool \<Rightarrow> appState \<Rightarrow> appState" where
  "rerender prevRunning st =
     (if timerRunning st \<noteq> prevRunning then timerEffect (timerEffectCleanup st) else st)"

subsection \<open>The handlers (App.js, lines 49-70)\<close>

text \<open>
  \<open>handleStartPause\<close> reads \<open>timerRunning\<close> and \<open>timerSeconds\<close> of the current render.
  Its arguments are the two clock readings, \<open>Date.now()\<close> and \<open>new Date()\<close>.
\<close>

definition handleStartPause :: "int \<Rightarrow> int \<Rightarrow> appState \<Rightarrow> appState" where
  "handleStartPause now stamp st =
     (let st1 =
        (if timerRunning st \<and> timerSeconds st > 0
         then st\<lparr>activityLog :=
                   addActivity
                     \<lparr>activityId = now, description = ''Timed Session'',
                      durationSeconds = timerSeconds st, timestamp = stamp\<rparr>
                     (activityLog st),
                 alerts := alerts st @
                   [(''Session Logged'', ''Duration: '' @ formatTime (timerSeconds st))]\<rparr>
         else st)
      in st1\<lparr>timerRunning := \<not> timerRunning st1\<rparr>)"

definition handleReset :: "appState \<Rightarrow> appState" where
  "handleReset st =
     (clearInterval (timerIntervalRef st) st)\<lparr>timerRunning := False, timerSeconds := 0\<rparr>"

subsection \<open>The engine as a transition system\<close>

text \<open>
  An event is a press of one of the two buttons, carrying the clock readings the handler
  takes, or one period of the timer. A press is the handler followed by the render and
  the effects it causes; JavaScript runs them on one thread, and no interval fires in
  between.
\<close>

datatype event = StartPause int int | Reset | Tick

fun step :: "event \<Rightarrow> appState \<Rightarrow> appState" where
  "step (StartPause now stamp) st = rerender (timerRunning st) (handleStartPause now stamp st)"
| "step Reset st = rerender (timerRunning st) (handleReset st)"
| "step Tick st = tick st"

definition run :: "event list \<Rightarrow> appState \<Rightarrow> appState" where
  "run evs st = fold step evs st"

text \<open>The state after the first render: nothing runs, the log is empty.\<close>

definition initialState :: appState where
  "initialState =
     timerEffect
       \<lparr>timerRunning = False, timerSeconds = 0, timerIntervalRef = None,
        activityLog = [], activeIntervals = [], nextIntervalId = 1, alerts = []\<rparr>"

inductive reachable :: "appState \<Rightarrow> bool" where
  reachable_init: "reachable initialState"
| reachable_step: "reachable st \<Longrightarrow> reachable (step ev st)"

text \<open>
  While the timer runs, exactly the interval named by the reference is scheduled;
  while it does not, none is.
\<close>

definition timerInv :: "appState \<Rightarrow> bool" where
  "timerInv st =
     (if timerRunning st
      then (case timerIntervalRef st of
              None \<Rightarrow> False
            | Some i \<Rightarrow> activeIntervals st = [i])
      else activeIntervals st = [])"

subsection \<open>Reading a rendered field back\<close>

text \<open>
  The statements about the rendered text are phrased with a reader of decimal numerals
  that is independent of the functions that print them.
\<close>

definition isDigit :: "char \<Rightarrow> bool" where
  "isDigit c = (48 \<le> (of_char c :: nat) \<and> (of_char c :: nat) \<le> 57)"

definition digitValue :: "char \<Rightarrow> nat" where
  "digitValue c = of_char c - 48"

definition decimalValue :: "string \<Rightarrow> nat" where
  "decimalValue s = foldl (\<lambda>acc c. 10 * acc + digitValue c) 0 s"

section \<open>Properties of the rendering\<close>

lemma isDigit_digitChar: "d < 10 \<Longrightarrow> isDigit (digitChar d)"
  by (simp add: isDigit_def digitChar_def)

lemma digitValue_digitChar: "d < 10 \<Longrightarrow> digitValue (digitChar d) = d"
  by (simp add: digitValue_def digitChar_def)

lemma decimalValue_snoc: "decimalValue (s @ [c]) = 10 * decimalValue s + digitValue c"
  by (simp add: decimalValue_def)

lemma natToString_digits: "list_all isDigit (natToString n)"
proof (induction n rule: natToString.induct)
  case (1 n)
  show ?case
  proof (cases "n < 10")
    case True
    then show ?thesis by (simp add: natToString.simps [of n] isDigit_digitChar)
  next
    case False
    with 1 show ?thesis by (simp add: natToString.simps [of n] isDigit_digitChar)
  qed
qed

lemma natToString_value: "decimalValue (natToString n) = n"
proof (induction n rule: natToString.induct)
  case (1 n)
  show ?case
  proof (cases "n < 10")
    case True
    then show ?thesis
      by (simp add: natToString.simps [of n] decimalValue_def digitValue_digitChar)
  next
    case False
    with 1 show ?thesis
      by (simp add: natToString.simps [of n] decimalValue_snoc digitValue_digitChar)
  qed
qed

lemma natToString_length_small: "n < 10 \<Longrightarrow> length (natToString n) = 1"
  by (simp add: natToString.simps [of n])

lemma natToString_length_two: "10 \<le> n \<Longrightarrow> n < 100 \<Longrightarrow> length (natToString n) = 2"
  by (simp add: natToString.simps [of n] natToString_length_small)

lemma natToString_nonempty: "natToString n \<noteq> []"
  by (simp add: natToString.simps [of n])

lemma natToString_length_big: "10 \<le> n \<Longrightarrow> 2 \<le> length (natToString n)"
  using natToString_nonempty [of "n div 10"]
  by (cases "natToString (n div 10)") (simp_all add: natToString.simps [of n])

lemma natToString_hd: "0 < n \<Longrightarrow> hd (natToString n) \<noteq> CHR ''0''"
proof (induction n rule: natToString.induct)
  case (1 n)
  show ?case
  proof (cases "n < 10")
    case True
    have "digitValue (CHR ''0'') = 0" by (simp add: digitValue_def)
    with 1(2) True digitValue_digitChar [of n] have "digitChar n \<noteq> CHR ''0''"
      by auto
    with True show ?thesis by (simp add: natToString.simps [of n])
  next
    case False
    then have "0 < n div 10" by simp
    with 1(1) False have "hd (natToString (n div 10)) \<noteq> CHR ''0''" by simp
    with False show ?thesis
      by (simp add: natToString.simps [of n] natToString_nonempty)
  qed
qed

lemma digitChar_values:
  "digitChar 0 = CHR ''0''" "digitChar 1 = CHR ''1''" "digitChar 2 = CHR ''2''"
  "digitChar 3 = CHR ''3''" "digitChar 4 = CHR ''4''" "digitChar 5 = CHR ''5''"
  "digitChar 6 = CHR ''6''" "digitChar 7 = CHR ''7''" "digitChar 8 = CHR ''8''"
  "digitChar 9 = CHR ''9''" "digitChar (Suc 0) = CHR ''1''"
  by code_simp+

subsection \<open>The division is exact below \<open>2 ^ 53\<close>\<close>

lemma bitLength_bound: "n < 2 ^ bitLength n"
proof (induction n rule: bitLength.induct)
  case (1 n)
  show ?case
  proof (cases "n = 0")
    case True
    then show ?thesis by (simp add: bitLength.simps [of n])
  next
    case False
    with 1 have "n div 2 < 2 ^ bitLength (n div 2)" by simp
    then have "n < 2 * 2 ^ bitLength (n div 2)" by linarith
    with False show ?thesis by (simp add: bitLength.simps [of n])
  qed
qed

lemma bitLength_le: "n < 2 ^ k \<Longrightarrow> bitLength n \<le> k"
proof (induction n arbitrary: k rule: bitLength.induct)
  case (1 n)
  show ?case
  proof (cases "n = 0")
    case True
    then show ?thesis by (simp add: bitLength.simps [of 0])
  next
    case False
    with 1(2) obtain j where k: "k = Suc j" by (cases k) auto
    with 1(2) have "n div 2 < 2 ^ j" by simp
    with 1(1) False have "bitLength (n div 2) \<le> j" by simp
    with False k show ?thesis by (simp add: bitLength.simps [of n])
  qed
qed

lemma bitLength_pos: "0 < n \<Longrightarrow> 0 < bitLength n"
  by (simp add: bitLength.simps [of n])

lemma roundHalfEven_cases:
  "roundHalfEven n d = n div d \<or> (roundHalfEven n d = n div d + 1 \<and> d \<le> 2 * (n mod d))"
  by (auto simp add: roundHalfEven_def Let_def)

lemma round_floor_exact:
  fixes a b k :: nat
  assumes b: "0 < b" and k: "b < 2 * 2 ^ k"
  shows "roundHalfEven (a * 2 ^ k) b div 2 ^ k = a div b"
proof -
  let ?N = "a * 2 ^ k"
  let ?q = "?N div b"
  let ?r = "?N mod b"
  let ?Q = "a div b"
  have qQ: "?q div 2 ^ k = ?Q"
    by (simp add: div_mult2_eq [symmetric] mult.commute)
  from roundHalfEven_cases [of ?N b] show ?thesis
  proof
    assume "roundHalfEven ?N b = ?q"
    with qQ show ?thesis by simp
  next
    assume up: "roundHalfEven ?N b = ?q + 1 \<and> b \<le> 2 * ?r"
    have "(?q + 1) div 2 ^ k = ?Q"
    proof (rule ccontr)
      assume neq: "(?q + 1) div 2 ^ k \<noteq> ?Q"
      have lower: "?Q * 2 ^ k \<le> ?q" using qQ
        by (metis div_mult_self_is_m mult.commute div_le_mono times_div_less_eq_dividend
            zero_less_numeral zero_less_power)
      have "?q < (?Q + 1) * 2 ^ k" using qQ
        by (metis Suc_eq_plus1 dividend_less_div_times mult.commute zero_less_numeral
            zero_less_power add.commute mult_Suc)
      with neq lower have eq: "?q + 1 = (?Q + 1) * 2 ^ k"
        by (metis Suc_eq_plus1 Suc_leI div_nat_eqI le_neq_implies_less less_Suc_eq_le mult.commute
            order_less_imp_le)
      have "a < (?Q + 1) * b"
        using b by (metis Suc_eq_plus1 dividend_less_div_times mult.commute add.commute mult_Suc)
      then have "a + 1 \<le> (?Q + 1) * b" by simp
      then have "(a + 1) * 2 ^ k \<le> (?Q + 1) * b * 2 ^ k" by (rule mult_le_mono1)
      then have N: "?N + 2 ^ k \<le> (?q + 1) * b" using eq
        by (simp add: algebra_simps)
      define q r where "q = ?q" and "r = ?r"
      have "?N = q * b + r" by (simp add: q_def r_def)
      moreover from N have "?N + 2 ^ k \<le> q * b + b" by (simp add: q_def)
      ultimately have "r + 2 ^ k \<le> b" by linarith
      then have "?r + 2 ^ k \<le> b" by (simp add: r_def)
      with up k show False by simp
    qed
    with up show ?thesis by simp
  qed
qed

lemma divideNumbers_small:
  assumes a: "a < 2 ^ 53" and b: "0 < b"
  shows "\<exists>k. divideNumbers a b = (roundHalfEven (a * 2 ^ k) b, - int k) \<and> b < 2 * 2 ^ k"
proof -
  let ?e0 = "int (bitLength a) - int (bitLength b) - 53"
  from a have la: "bitLength a \<le> 53" by (rule bitLength_le)
  from b have lb: "0 < bitLength b" by (rule bitLength_pos)
  have bb: "b < 2 ^ bitLength b" by (rule bitLength_bound)
  have main: "\<exists>k. scaledQuotient e a b = (a * 2 ^ k, b) \<and> e = - int k \<and> b < 2 * 2 ^ k"
    if e: "e = ?e0 \<or> e = ?e0 + 1" for e
  proof -
    from e la lb have e0: "e \<le> 0" by auto
    define k where "k = nat (- e)"
    from e0 have ek: "e = - int k" by (simp add: k_def)
    from e la have "int (bitLength b) \<le> int k + 1" unfolding k_def by auto
    then have "bitLength b \<le> Suc k" by simp
    then have "(2::nat) ^ bitLength b \<le> 2 ^ Suc k" by (rule power_increasing) simp
    with bb have "b < 2 * 2 ^ k" by simp
    moreover from e0 have "scaledQuotient e a b = (a * 2 ^ k, b)"
      by (simp add: scaledQuotient_def k_def)
    ultimately show ?thesis using ek by blast
  qed
  define e where "e = (case scaledQuotient ?e0 a b of (n, d) \<Rightarrow>
      if n div d < 2 ^ 53 then ?e0 else ?e0 + 1)"
  have "e = ?e0 \<or> e = ?e0 + 1"
    by (simp add: e_def split: prod.split)
  from main [OF this] obtain k where
    k: "scaledQuotient e a b = (a * 2 ^ k, b)" "e = - int k" "b < 2 * 2 ^ k"
    by blast
  have "divideNumbers a b = (case scaledQuotient e a b of (n, d) \<Rightarrow> (roundHalfEven n d, e))"
    by (simp add: divideNumbers_def Let_def e_def)
  with k show ?thesis by auto
qed

lemma floorScaled_neg: "floorScaled (int m) (- int k) = int (m div 2 ^ k)"
  by (cases "k = 0") (simp_all add: floorScaled_def zdiv_int)

lemma mathFloorDiv_exact:
  assumes "0 \<le> a" "a < 2 ^ 53" "0 < b"
  shows "mathFloorDiv a b = a div b"
proof (cases "a = 0")
  case True
  then show ?thesis by (simp add: mathFloorDiv_def floorScaled_def split: prod.split)
next
  case False
  with assms have pos: "0 < a" by simp
  from assms have "nat \<bar>a\<bar> < 2 ^ 53" "0 < nat \<bar>b\<bar>" by simp_all
  from divideNumbers_small [OF this] obtain k where
    k: "divideNumbers (nat \<bar>a\<bar>) (nat \<bar>b\<bar>)
          = (roundHalfEven (nat \<bar>a\<bar> * 2 ^ k) (nat \<bar>b\<bar>), - int k)"
       "nat \<bar>b\<bar> < 2 * 2 ^ k"
    by blast
  from k(2) assms(3) have "roundHalfEven (nat \<bar>a\<bar> * 2 ^ k) (nat \<bar>b\<bar>) div 2 ^ k
      = nat \<bar>a\<bar> div nat \<bar>b\<bar>"
    by (intro round_floor_exact) simp_all
  with k(1) pos assms(3) show ?thesis
    by (simp add: mathFloorDiv_def floorScaled_neg zdiv_int)
qed

subsection \<open>The string of a number: its length, and plain digits below \<open>2 ^ 53\<close>\<close>

lemma closest_in: "closest x k c cs \<in> set (c # cs)"
  by (induction cs arbitrary: c) auto

lemma decimalCandidates_snd:
  "c \<in> set (decimalCandidates x k) \<Longrightarrow> length (natToString x) \<le> snd c"
  by (auto simp add: decimalCandidates_def Let_def split: if_splits)

lemma shortestDecimal_snd: "length (natToString x) \<le> snd (shortestDecimal x)"
proof -
  let ?d = "length (natToString x)"
  show ?thesis
  proof (cases "filter (\<lambda>k. decimalCandidates x k \<noteq> []) [1..<Suc ?d]")
    case Nil
    then have "shortestDecimal x = (x, ?d)"
      by (simp only: shortestDecimal_def Let_def list.case)
    then show ?thesis by simp
  next
    case outer: (Cons k ks)
    show ?thesis
    proof (cases "decimalCandidates x k")
      case Nil
      with outer have "shortestDecimal x = (x, ?d)"
        by (simp only: shortestDecimal_def Let_def list.case)
      then show ?thesis by simp
    next
      case (Cons c cs)
      have "closest x k c cs \<in> set (decimalCandidates x k)"
        unfolding Cons by (rule closest_in)
      then have "?d \<le> snd (closest x k c cs)" by (rule decimalCandidates_snd)
      moreover from Cons outer have "shortestDecimal x = closest x k c cs"
        by (simp only: shortestDecimal_def Let_def list.case)
      ultimately show ?thesis by simp
    qed
  qed
qed

lemma decimalToString_length: "10 \<le> x \<Longrightarrow> 2 \<le> length (decimalToString x)"
proof -
  assume "10 \<le> x"
  then have d: "2 \<le> length (natToString x)" by (rule natToString_length_big)
  obtain s n where sn: "shortestDecimal x = (s, n)" by (cases "shortestDecimal x")
  with shortestDecimal_snd [of x] d have n: "2 \<le> n" by simp
  have ne: "natToString s \<noteq> []" by (rule natToString_nonempty)
  show ?thesis
  proof (cases "n \<le> 21")
    case True
    with sn n show ?thesis by (simp add: decimalToString_def Let_def)
  next
    case False
    with sn ne show ?thesis
      by (cases "natToString s") (simp_all add: decimalToString_def Let_def)
  qed
qed

lemma bitLength_lower: "0 < n \<Longrightarrow> 2 ^ bitLength n \<le> 2 * n"
proof (induction n rule: bitLength.induct)
  case (1 n)
  show ?case
  proof (cases "n div 2 = 0")
    case True
    with 1(2) have "n = 1" by linarith
    then show ?thesis by (simp add: bitLength.simps [of "Suc 0"] bitLength.simps [of 0])
  next
    case False
    with 1 have "2 ^ bitLength (n div 2) \<le> 2 * (n div 2)" by simp
    also have "\<dots> \<le> n" by simp
    finally show ?thesis using 1(2) by (simp add: bitLength.simps [of n])
  qed
qed

lemma roundHalfEven_one: "roundHalfEven n (Suc 0) = n"
  by (simp add: roundHalfEven_def)

lemma roundHalfEven_ge: "n div d \<le> roundHalfEven n d"
  by (simp add: roundHalfEven_def Let_def)

lemma nearestNumber_small: "y < 2 ^ 53 \<Longrightarrow> nearestNumber y = y"
proof -
  assume "y < 2 ^ 53"
  from divideNumbers_small [OF this, of 1] obtain k where
    "divideNumbers y 1 = (roundHalfEven (y * 2 ^ k) 1, - int k)" by auto
  then have "divideNumbers y 1 = (y * 2 ^ k, - int k)"
    by (simp add: roundHalfEven_one)
  moreover have "floorScaled (int (y * 2 ^ k)) (- int k) = int (y * 2 ^ k div 2 ^ k)"
    by (rule floorScaled_neg)
  ultimately show ?thesis
    unfolding nearestNumber_def by simp
qed

lemma nearestNumber_large:
  assumes "2 ^ 53 \<le> y"
  shows "2 ^ 53 \<le> nearestNumber y"
proof -
  define l where "l = bitLength y"
  have "y < 2 ^ l" unfolding l_def by (rule bitLength_bound)
  with assms have h: "(2::nat) ^ 53 < 2 ^ l" by (rule le_less_trans)
  have "1 < (2::nat)" by simp
  from power_less_imp_less_exp [OF this h] have l: "53 < l" .
  define j where "j = l - 54"
  from l have lj: "l = j + 54" by (simp add: j_def)
  from assms have "0 < y" by simp
  then have "2 ^ l \<le> 2 * y" unfolding l_def by (rule bitLength_lower)
  then have low: "2 ^ 53 * 2 ^ j \<le> y" by (simp add: lj power_add)
  have b1: "bitLength (Suc 0) = Suc 0"
    by (simp add: bitLength.simps [of "Suc 0"] bitLength.simps [of 0])
  have e0: "int (bitLength y) - int (bitLength 1) - 53 = int j"
    by (simp add: b1 l_def [symmetric] lj)
  have q0: "\<not> y div 2 ^ j < 2 ^ 53"
  proof -
    from low have "2 ^ 53 * 2 ^ j div 2 ^ j \<le> y div 2 ^ j" by (rule div_le_mono)
    then show ?thesis by simp
  qed
  have dn: "divideNumbers y 1 = (roundHalfEven y (2 ^ Suc j), int (Suc j))"
    unfolding divideNumbers_def e0 Let_def
    using q0 by (simp add: scaledQuotient_def nat_add_distrib)
  from low have "2 ^ 52 * 2 ^ Suc j \<le> y" by simp
  then have "2 ^ 52 * 2 ^ Suc j div 2 ^ Suc j \<le> y div 2 ^ Suc j" by (rule div_le_mono)
  then have "2 ^ 52 \<le> y div 2 ^ Suc j" by simp
  also have "\<dots> \<le> roundHalfEven y (2 ^ Suc j)" by (rule roundHalfEven_ge)
  finally have m: "2 ^ 52 \<le> roundHalfEven y (2 ^ Suc j)" .
  have "nearestNumber y = roundHalfEven y (2 ^ Suc j) * 2 ^ Suc j"
    unfolding nearestNumber_def dn
    by (simp add: floorScaled_def nat_mult_distrib nat_power_eq nat_add_distrib)
  moreover have "(2::nat) ^ 52 * 2 ^ Suc 0 \<le> roundHalfEven y (2 ^ Suc j) * 2 ^ Suc j"
    using m by (intro mult_le_mono power_increasing) simp_all
  ultimately show ?thesis by simp
qed

lemma nearestNumber_eq_small:
  "nearestNumber y = x \<Longrightarrow> x < 2 ^ 53 \<Longrightarrow> y = x"
  using nearestNumber_large [of y] nearestNumber_small [of y] by (cases "y < 2 ^ 53") auto

lemma natToString_times_ten: "0 < s \<Longrightarrow> natToString (s * 10) = natToString s @ ''0''"
  by (simp add: natToString.simps [of "s * 10"] digitChar_values)

lemma natToString_zeros:
  "0 < s \<Longrightarrow> natToString (s * 10 ^ j) = natToString s @ replicate j (CHR ''0'')"
proof (induction j)
  case 0
  show ?case by simp
next
  case (Suc j)
  from Suc.prems have "0 < s * 10 ^ j" by simp
  then have step: "natToString (s * 10 ^ j * 10) = natToString (s * 10 ^ j) @ ''0''"
    by (rule natToString_times_ten)
  have "s * 10 ^ Suc j = s * 10 ^ j * 10" by simp
  then have "natToString (s * 10 ^ Suc j) = natToString (s * 10 ^ j) @ ''0''"
    using step by (simp only:)
  also have "\<dots> = (natToString s @ replicate j (CHR ''0'')) @ ''0''"
    using Suc by (simp only:)
  also have "\<dots> = natToString s @ replicate (Suc j) (CHR ''0'')"
    by (simp add: replicate_append_same)
  finally show ?case .
qed

lemma natToString_length_le: "0 < k \<Longrightarrow> n < 10 ^ k \<Longrightarrow> length (natToString n) \<le> k"
proof (induction n arbitrary: k rule: natToString.induct)
  case (1 n)
  show ?case
  proof (cases "n < 10")
    case True
    with 1(2) show ?thesis by (simp add: natToString_length_small)
  next
    case False
    from 1(2) obtain j where k: "k = Suc j" by (cases k) auto
    with False 1(3) have j: "0 < j" by (cases j) auto
    from 1(3) k have "n div 10 < 10 ^ j" by simp
    with 1(1) False j have "length (natToString (n div 10)) \<le> j" by simp
    with False k show ?thesis by (simp add: natToString.simps [of n])
  qed
qed

lemma natToString_length_ge: "0 < k \<Longrightarrow> 10 ^ (k - 1) \<le> n \<Longrightarrow> k \<le> length (natToString n)"
proof (induction n arbitrary: k rule: natToString.induct)
  case (1 n)
  show ?case
  proof (cases "n < 10")
    case True
    from 1(2) obtain j where k: "k = Suc j" by (cases k) auto
    have "j = 0"
    proof (rule ccontr)
      assume "j \<noteq> 0"
      then obtain i where "j = Suc i" by (cases j) auto
      with 1(3) k have "10 * 10 ^ i \<le> n" by simp
      moreover have "(10::nat) * 1 \<le> 10 * 10 ^ i" by (intro mult_le_mono) simp_all
      ultimately show False using True by simp
    qed
    with k True show ?thesis by (simp add: natToString_length_small)
  next
    case False
    from 1(2) obtain j where k: "k = Suc j" by (cases k) auto
    show ?thesis
    proof (cases "j = 0")
      case True
      with k False show ?thesis by (simp add: natToString.simps [of n])
    next
      case nz: False
      then obtain i where j: "j = Suc i" by (cases j) auto
      from 1(3) k j have "10 * 10 ^ i \<le> n" by simp
      then have "10 * 10 ^ i div 10 \<le> n div 10" by (rule div_le_mono)
      then have "10 ^ (j - 1) \<le> n div 10" by (simp add: j)
      with 1(1) False nz have "j \<le> length (natToString (n div 10))" by simp
      with False k show ?thesis by (simp add: natToString.simps [of n])
    qed
  qed
qed

lemma decimalCandidates_represents:
  "c \<in> set (decimalCandidates x k) \<Longrightarrow> representsNumber x k c"
  unfolding decimalCandidates_def Let_def set_filter by blast

lemma decimalCandidates_snd_le:
  "c \<in> set (decimalCandidates x k) \<Longrightarrow> snd c \<le> length (natToString x) + 1"
  by (auto simp add: decimalCandidates_def Let_def split: if_splits)

lemma shortestDecimal_cases:
  "shortestDecimal x = (x, length (natToString x))
   \<or> (\<exists>k. 0 < k \<and> k \<le> length (natToString x)
          \<and> shortestDecimal x \<in> set (decimalCandidates x k))"
proof -
  let ?d = "length (natToString x)"
  show ?thesis
  proof (cases "filter (\<lambda>k. decimalCandidates x k \<noteq> []) [1..<Suc ?d]")
    case Nil
    then have "shortestDecimal x = (x, ?d)"
      by (simp only: shortestDecimal_def Let_def list.case)
    then show ?thesis by simp
  next
    case outer: (Cons k ks)
    have "k \<in> set (filter (\<lambda>k. decimalCandidates x k \<noteq> []) [1..<Suc ?d])"
      by (simp only: outer) simp
    then have "k \<in> set [1..<Suc ?d]" by (simp only: set_filter) blast
    then have "1 \<le> k \<and> k < Suc ?d" by (simp only: set_upt atLeastLessThan_iff)
    then have k: "0 < k" "k \<le> ?d" by linarith+
    show ?thesis
    proof (cases "decimalCandidates x k")
      case Nil
      with outer have "shortestDecimal x = (x, ?d)"
        by (simp only: shortestDecimal_def Let_def list.case)
      then show ?thesis by simp
    next
      case (Cons c cs)
      have "closest x k c cs \<in> set (decimalCandidates x k)"
        unfolding Cons by (rule closest_in)
      moreover from Cons outer have "shortestDecimal x = closest x k c cs"
        by (simp only: shortestDecimal_def Let_def list.case)
      ultimately show ?thesis using k by auto
    qed
  qed
qed

lemma decimalToString_small:
  assumes pos: "0 < x" and small: "x < 2 ^ 53"
  shows "decimalToString x = natToString x"
proof -
  let ?d = "length (natToString x)"
  from small have "x < 10 ^ 16" by simp
  then have d16: "?d \<le> 16" by (intro natToString_length_le) simp_all
  from shortestDecimal_cases [of x] show ?thesis
  proof
    assume "shortestDecimal x = (x, ?d)"
    with d16 show ?thesis by (simp add: decimalToString_def Let_def)
  next
    assume "\<exists>k. 0 < k \<and> k \<le> ?d \<and> shortestDecimal x \<in> set (decimalCandidates x k)"
    then obtain k where k: "0 < k" "k \<le> ?d"
      and mem: "shortestDecimal x \<in> set (decimalCandidates x k)" by blast
    obtain s n where sn: "shortestDecimal x = (s, n)" by (cases "shortestDecimal x")
    from mem sn have rep: "representsNumber x k (s, n)"
      by (simp add: decimalCandidates_represents)
    from decimalCandidates_snd [OF mem] decimalCandidates_snd_le [OF mem] sn
    have n: "?d \<le> n" "n \<le> ?d + 1" by simp_all
    from rep have s: "10 ^ (k - 1) \<le> s" "s < 10 ^ k"
      and near: "nearestNumber (s * 10 ^ (n - k)) = x"
      by (simp_all add: representsNumber_def)
    from near small have x: "s * 10 ^ (n - k) = x" by (rule nearestNumber_eq_small)
    with pos have s0: "0 < s" by (cases "s = 0") auto
    from k(1) s have "length (natToString s) \<le> k" "k \<le> length (natToString s)"
      by (simp_all add: natToString_length_le natToString_length_ge)
    then have len: "length (natToString s) = k" by simp
    from s0 have "natToString (s * 10 ^ (n - k)) = natToString s @ replicate (n - k) (CHR ''0'')"
      by (rule natToString_zeros)
    with x have "natToString x = natToString s @ replicate (n - k) (CHR ''0'')" by simp
    moreover from n d16 have "n \<le> 21" by simp
    ultimately show ?thesis using sn len
      by (simp add: decimalToString_def Let_def)
  qed
qed

lemma numberToString_small:
  assumes "0 \<le> v" "v < 2 ^ 53"
  shows "numberToString v = natToString (nat v)"
proof (cases "v = 0")
  case True
  then show ?thesis
    by (simp add: numberToString_def positiveToString_def natToString.simps [of 0]
        digitChar_values)
next
  case False
  with assms have "0 < nat v" "nat v < 2 ^ 53" by (simp_all add: nat_less_iff)
  then have "decimalToString (nat v) = natToString (nat v)" by (rule decimalToString_small)
  with assms False show ?thesis
    by (simp add: numberToString_def positiveToString_def)
qed

lemma numberToString_length_small: "0 \<le> v \<Longrightarrow> v < 10 \<Longrightarrow> length (numberToString v) = 1"
  by (simp add: numberToString_small natToString_length_small)

lemma numberToString_length_big: "10 \<le> v \<Longrightarrow> 2 \<le> length (numberToString v)"
  by (simp add: numberToString_def positiveToString_def decimalToString_length)

lemma mathFloorDiv_nonneg: "0 \<le> a \<Longrightarrow> 0 < b \<Longrightarrow> 0 \<le> mathFloorDiv a b"
  by (cases "a = 0")
    (auto simp add: mathFloorDiv_def floorScaled_def pos_imp_zdiv_nonneg_iff split: prod.split)

subsection \<open>Evaluation on numerals\<close>

lemmas number_eval =
  bitLength.simps [of "numeral k"] bitLength.simps [of 0] bitLength.simps [of "Suc 0"]
  natToString.simps [of "numeral k"] natToString.simps [of 0] natToString.simps [of "Suc 0"]
  for k

lemmas format_eval = formatTime_def mathFloorDiv_def jsRemainder_def divideNumbers_def
  scaledQuotient_def roundHalfEven_def floorScaled_def formatField_def numberToString_small
  digitChar_values Let_def number_eval

subsection \<open>The fields of formatTime\<close>

lemma formatField_padStart:
  "0 \<le> v \<Longrightarrow> formatField v = padStart 2 (CHR ''0'') (numberToString v)"
proof (cases "v < 10")
  case True
  assume "0 \<le> v"
  with True have "length (numberToString v) = 1"
    by (simp add: numberToString_length_small)
  with True show ?thesis
    by (simp add: formatField_def padStart_def)
next
  case False
  then have "2 \<le> length (numberToString v)"
    by (simp add: numberToString_length_big)
  with False show ?thesis
    by (simp add: formatField_def padStart_def)
qed

lemma jsRemainder_nonneg: "0 \<le> a \<Longrightarrow> 0 < b \<Longrightarrow> jsRemainder a b = a mod b"
  by (cases "a = 0") (simp_all add: jsRemainder_def)

lemma formatTime_fields:
  "formatTime s = formatField (mathFloorDiv s 3600) @ '':'' @
     formatField (mathFloorDiv (jsRemainder s 3600) 60) @ '':'' @
     formatField (jsRemainder s 60)"
  by (simp add: formatTime_def Let_def)

lemma formatField_digits:
  "0 \<le> v \<Longrightarrow> v < 2 ^ 53 \<Longrightarrow> list_all isDigit (formatField v)"
  by (simp add: formatField_def numberToString_small natToString_digits isDigit_def)

lemma formatField_value:
  assumes "0 \<le> v" "v < 2 ^ 53"
  shows "int (decimalValue (formatField v)) = v"
proof -
  have "decimalValue (CHR ''0'' # natToString n) = decimalValue (natToString n)" for n
    by (simp add: decimalValue_def digitValue_def)
  with assms show ?thesis
    by (simp add: formatField_def numberToString_small natToString_value)
qed

lemma formatField_length_two: "0 \<le> v \<Longrightarrow> v < 100 \<Longrightarrow> length (formatField v) = 2"
  by (simp add: formatField_def numberToString_small natToString_length_small
      natToString_length_two)

lemma formatField_length: "0 \<le> v \<Longrightarrow> 2 \<le> length (formatField v)"
  by (simp add: formatField_def numberToString_length_small numberToString_length_big)

lemma formatField_no_padding:
  assumes "0 \<le> v" "v < 2 ^ 53"
  shows "length (formatField v) = 2 \<or> hd (formatField v) \<noteq> CHR ''0''"
proof (cases "v < 100")
  case True
  with assms(1) show ?thesis by (simp add: formatField_length_two)
next
  case False
  then have "0 < nat v" by simp
  then have "hd (natToString (nat v)) \<noteq> CHR ''0''" by (rule natToString_hd)
  with False assms show ?thesis by (simp add: formatField_def numberToString_small)
qed

lemma formatTime_examples:
  "formatTime 0 = ''00:00:00''" "formatTime 59 = ''00:00:59''"
  "formatTime 3600 = ''01:00:00''" "formatTime 3661 = ''01:01:01''"
  by (simp_all add: format_eval)

text \<open>
  C3, as the code behaves. For every whole number of seconds \<open>s\<close> with
  \<open>0 \<le> s < 2 ^ 53\<close>, \<open>formatTime s\<close> is three fields separated by colons. Every field
  consists of decimal digits only. The first field reads as \<open>floor (s / 3600)\<close>, has at
  least two characters and carries a leading zero only when it has exactly two (it grows
  with the number and never wraps around); the second reads as \<open>floor ((s % 3600) / 60)\<close>
  and the third as \<open>s % 60\<close>, each with exactly two characters. In particular
  \<open>formatTime 0\<close>, \<open>formatTime 59\<close>, \<open>formatTime 3600\<close> and \<open>formatTime 3661\<close> are
  \<open>00:00:00\<close>, \<open>00:00:59\<close>, \<open>01:00:00\<close> and \<open>01:01:01\<close>.
\<close>

theorem formatTime_HH_MM_SS:
  assumes "0 \<le> s" and "s < 2 ^ 53"
  shows "(\<exists>H M S. formatTime s = H @ '':'' @ M @ '':'' @ S
            \<and> list_all isDigit H \<and> list_all isDigit M \<and> list_all isDigit S
            \<and> int (decimalValue H) = s div 3600
            \<and> int (decimalValue M) = (s mod 3600) div 60
            \<and> int (decimalValue S) = s mod 60
            \<and> 2 \<le> length H \<and> (length H = 2 \<or> hd H \<noteq> CHR ''0'')
            \<and> length M = 2 \<and> length S = 2)
         \<and> formatTime 0 = ''00:00:00'' \<and> formatTime 59 = ''00:00:59''
         \<and> formatTime 3600 = ''01:00:00'' \<and> formatTime 3661 = ''01:01:01''"
proof -
  let ?h = "mathFloorDiv s 3600"
  let ?m = "mathFloorDiv (jsRemainder s 3600) 60"
  let ?s = "jsRemainder s 60"
  from assms have h: "?h = s div 3600"
    by (simp add: mathFloorDiv_exact)
  from assms(1) have r: "jsRemainder s 3600 = s mod 3600" and s: "?s = s mod 60"
    by (simp_all add: jsRemainder_nonneg)
  have "0 \<le> s mod 3600" "s mod 3600 < 2 ^ 53" by simp_all
  then have m: "?m = (s mod 3600) div 60"
    unfolding r by (simp add: mathFloorDiv_exact)
  from assms(1) have "0 \<le> s div 3600" "s div 3600 \<le> s" by arith+
  with assms(2) have h0: "0 \<le> ?h" "?h < 2 ^ 53"
    unfolding h by simp_all
  have m0: "0 \<le> ?m" "?m < 100" "?m < 2 ^ 53" and s0: "0 \<le> ?s" "?s < 100" "?s < 2 ^ 53"
    unfolding m s by (simp_all add: pos_imp_zdiv_nonneg_iff)
  have "formatTime s = formatField ?h @ '':'' @ formatField ?m @ '':'' @ formatField ?s"
    by (rule formatTime_fields)
  moreover have "list_all isDigit (formatField ?h)" "list_all isDigit (formatField ?m)"
    "list_all isDigit (formatField ?s)"
    using h0 m0 s0 by (simp_all only: formatField_digits)
  moreover have "int (decimalValue (formatField ?h)) = s div 3600"
    "int (decimalValue (formatField ?m)) = (s mod 3600) div 60"
    "int (decimalValue (formatField ?s)) = s mod 60"
    using h0 m0 s0 h m s by (simp_all only: formatField_value)
  moreover have "2 \<le> length (formatField ?h)"
    "length (formatField ?h) = 2 \<or> hd (formatField ?h) \<noteq> CHR ''0''"
    using h0 by (simp_all only: formatField_length formatField_no_padding)
  moreover have "length (formatField ?m) = 2" "length (formatField ?s) = 2"
    using m0 s0 by (simp_all only: formatField_length_two)
  ultimately have "\<exists>H M S. formatTime s = H @ '':'' @ M @ '':'' @ S
            \<and> list_all isDigit H \<and> list_all isDigit M \<and> list_all isDigit S
            \<and> int (decimalValue H) = s div 3600
            \<and> int (decimalValue M) = (s mod 3600) div 60
            \<and> int (decimalValue S) = s mod 60
            \<and> 2 \<le> length H \<and> (length H = 2 \<or> hd H \<noteq> CHR ''0'')
            \<and> length M = 2 \<and> length S = 2"
    by blast
  then show ?thesis by (simp only: formatTime_examples simp_thms)
qed

text \<open>A hundred hours, and the largest whole number below \<open>2 ^ 53\<close>.\<close>

theorem formatTime_HH_MM_SS_witness:
  "(0::int) \<le> 360000 \<and> (360000::int) < 2 ^ 53
   \<and> (\<exists>H M S. formatTime 360000 = H @ '':'' @ M @ '':'' @ S
            \<and> list_all isDigit H \<and> list_all isDigit M \<and> list_all isDigit S
            \<and> int (decimalValue H) = 360000 div 3600
            \<and> int (decimalValue M) = (360000 mod 3600) div 60
            \<and> int (decimalValue S) = 360000 mod 60
            \<and> 2 \<le> length H \<and> (length H = 2 \<or> hd H \<noteq> CHR ''0'')
            \<and> length M = 2 \<and> length S = 2)
   \<and> (0::int) \<le> 9007199254740991 \<and> (9007199254740991::int) < 2 ^ 53
   \<and> (\<exists>H M S. formatTime 9007199254740991 = H @ '':'' @ M @ '':'' @ S
            \<and> list_all isDigit H \<and> list_all isDigit M \<and> list_all isDigit S
            \<and> int (decimalValue H) = 2501999792983
            \<and> int (decimalValue M) = 36
            \<and> int (decimalValue S) = 31
            \<and> 2 \<le> length H \<and> (length H = 2 \<or> hd H \<noteq> CHR ''0'')
            \<and> length M = 2 \<and> length S = 2)"
proof -
  have h: "(0::int) \<le> 360000" "(360000::int) < 2 ^ 53" by simp_all
  have g: "(0::int) \<le> 9007199254740991" "(9007199254740991::int) < 2 ^ 53" by simp_all
  from formatTime_HH_MM_SS [OF h] formatTime_HH_MM_SS [OF g] show ?thesis by simp
qed

text \<open>
  The claim for every whole number fails from \<open>2 ^ 53\<close> on. The number
  \<open>253327479039593984\<close> is a binary64 value; its quotient by 3600 rounds up to the next
  whole number, and the hours field reads \<open>70368744177665\<close> where
  \<open>floor (s / 3600)\<close> is \<open>70368744177664\<close>.
\<close>

theorem formatTime_large_counterexample:
  "nearestNumber 253327479039593984 = 253327479039593984
   \<and> formatTime 253327479039593984 = ''70368744177665:59:44''
   \<and> int (decimalValue ''70368744177665'') \<noteq> 253327479039593984 div 3600"
  by (simp add: format_eval nearestNumber_def decimalValue_def digitValue_def)

text \<open>
  C7. For every entry whose \<open>durationSeconds\<close> is a whole number \<open>\<ge> 0\<close>, the duration
  that the log screen renders is, character for character, \<open>formatTime\<close> of that number;
  the whole line is that string after \<open>Duration: \<close>, as in the alert of the stop.
\<close>

theorem renderDuration_eq_formatTime:
  assumes "0 \<le> durationSeconds item"
  shows "renderDuration item = formatTime (durationSeconds item)
         \<and> renderActivityDuration item = ''Duration: '' @ formatTime (durationSeconds item)"
proof -
  let ?d = "durationSeconds item"
  from assms have "0 \<le> mathFloorDiv ?d 3600" "0 \<le> mathFloorDiv (jsRemainder ?d 3600) 60"
    "0 \<le> jsRemainder ?d 60"
    by (simp_all add: mathFloorDiv_nonneg jsRemainder_nonneg)
  then have "renderDuration item = formatTime (durationSeconds item)"
    by (simp only: formatTime_fields renderDuration_def formatField_padStart)
  then show ?thesis by (simp only: renderActivityDuration_def simp_thms)
qed

theorem renderDuration_eq_formatTime_witness:
  "0 \<le> durationSeconds
       \<lparr>activityId = 1700000000000, description = ''Timed Session'',
        durationSeconds = 3661, timestamp = 1700000000000\<rparr>
   \<and> renderDuration
       \<lparr>activityId = 1700000000000, description = ''Timed Session'',
        durationSeconds = 3661, timestamp = 1700000000000\<rparr> = formatTime 3661"
  using renderDuration_eq_formatTime
    [of "\<lparr>activityId = 1700000000000, description = ''Timed Session'',
         durationSeconds = 3661, timestamp = 1700000000000\<rparr>"]
  by simp


section \<open>Intervals, effects and the invariant of the timer\<close>

lemma clearInterval_fields [simp]:
  "timerRunning (clearInterval h st) = timerRunning st"
  "timerSeconds (clearInterval h st) = timerSeconds st"
  "timerIntervalRef (clearInterval h st) = timerIntervalRef st"
  "activityLog (clearInterval h st) = activityLog st"
  "alerts (clearInterval h st) = alerts st"
  by (simp_all add: clearInterval_def split: option.split)

lemma timerEffect_fields [simp]:
  "timerRunning (timerEffect st) = timerRunning st"
  "timerSeconds (timerEffect st) = timerSeconds st"
  "activityLog (timerEffect st) = activityLog st"
  "alerts (timerEffect st) = alerts st"
  by (simp_all add: timerEffect_def setInterval_def)

lemma timerEffectCleanup_fields [simp]:
  "timerRunning (timerEffectCleanup st) = timerRunning st"
  "timerSeconds (timerEffectCleanup st) = timerSeconds st"
  "timerIntervalRef (timerEffectCleanup st) = timerIntervalRef st"
  "activityLog (timerEffectCleanup st) = activityLog st"
  "alerts (timerEffectCleanup st) = alerts st"
  by (simp_all add: timerEffectCleanup_def)

lemma rerender_fields [simp]:
  "timerRunning (rerender b st) = timerRunning st"
  "timerSeconds (rerender b st) = timerSeconds st"
  "activityLog (rerender b st) = activityLog st"
  "alerts (rerender b st) = alerts st"
  by (simp_all add: rerender_def)

lemma fold_intervalFires_fields:
  "timerRunning (fold intervalFires xs st) = timerRunning st"
  "timerIntervalRef (fold intervalFires xs st) = timerIntervalRef st"
  "activityLog (fold intervalFires xs st) = activityLog st"
  "activeIntervals (fold intervalFires xs st) = activeIntervals st"
  "nextIntervalId (fold intervalFires xs st) = nextIntervalId st"
  "alerts (fold intervalFires xs st) = alerts st"
  by (induction xs arbitrary: st; simp add: intervalFires_def timerCallback_def)+

lemma tick_fields [simp]:
  "timerRunning (tick st) = timerRunning st"
  "timerIntervalRef (tick st) = timerIntervalRef st"
  "activityLog (tick st) = activityLog st"
  "activeIntervals (tick st) = activeIntervals st"
  "nextIntervalId (tick st) = nextIntervalId st"
  "alerts (tick st) = alerts st"
  by (simp_all add: tick_def fold_intervalFires_fields)

lemma tick_idle: "activeIntervals st = [] \<Longrightarrow> tick st = st"
  by (simp add: tick_def)

lemma tick_single:
  "activeIntervals st = [i] \<Longrightarrow> tick st = st\<lparr>timerSeconds := timerSeconds st + 1\<rparr>"
  by (simp add: tick_def intervalFires_def timerCallback_def)

lemma handleStartPause_running [simp]:
  "timerRunning (handleStartPause now stamp st) = (\<not> timerRunning st)"
  by (simp add: handleStartPause_def Let_def)

lemma handleStartPause_seconds [simp]:
  "timerSeconds (handleStartPause now stamp st) = timerSeconds st"
  by (simp add: handleStartPause_def Let_def)

lemma handleStartPause_intervals [simp]:
  "activeIntervals (handleStartPause now stamp st) = activeIntervals st"
  "timerIntervalRef (handleStartPause now stamp st) = timerIntervalRef st"
  by (simp_all add: handleStartPause_def Let_def)

lemma handleStartPause_log:
  "activityLog (handleStartPause now stamp st) =
     (if timerRunning st \<and> 0 < timerSeconds st
      then \<lparr>activityId = now, description = ''Timed Session'',
            durationSeconds = timerSeconds st, timestamp = stamp\<rparr> # activityLog st
      else activityLog st)"
  by (simp add: handleStartPause_def Let_def addActivity_def)

lemma handleReset_fields [simp]:
  "timerRunning (handleReset st) = False"
  "timerSeconds (handleReset st) = 0"
  "timerIntervalRef (handleReset st) = timerIntervalRef st"
  "activityLog (handleReset st) = activityLog st"
  "alerts (handleReset st) = alerts st"
  by (simp_all add: handleReset_def)

lemma timerInv_step: "timerInv st \<Longrightarrow> timerInv (step ev st)"
proof (cases ev)
  case (StartPause now stamp)
  assume "timerInv st"
  then show ?thesis unfolding StartPause
    by (auto simp add: timerInv_def rerender_def timerEffect_def timerEffectCleanup_def
        clearInterval_def setInterval_def split: option.splits if_splits)
next
  case Reset
  assume "timerInv st"
  then show ?thesis unfolding Reset
    by (auto simp add: timerInv_def rerender_def timerEffect_def timerEffectCleanup_def
        clearInterval_def handleReset_def split: option.splits if_splits)
next
  case Tick
  assume "timerInv st"
  then show ?thesis unfolding Tick
    by (auto simp add: timerInv_def split: option.splits if_splits)
qed

lemma timerInv_initial: "timerInv initialState"
  by (simp add: timerInv_def initialState_def timerEffect_def clearInterval_def)

lemma reachable_timerInv: "reachable st \<Longrightarrow> timerInv st"
  by (induction rule: reachable.induct) (simp_all add: timerInv_initial timerInv_step)

lemma reachable_run: "reachable st \<Longrightarrow> reachable (run evs st)"
  unfolding run_def
  by (induction evs arbitrary: st) (simp_all add: reachable_step)

lemma timerInv_idle: "timerInv st \<Longrightarrow> \<not> timerRunning st \<Longrightarrow> activeIntervals st = []"
  by (simp add: timerInv_def)

lemma timerInv_running:
  "timerInv st \<Longrightarrow> timerRunning st \<Longrightarrow> \<exists>i. activeIntervals st = [i]"
  by (auto simp add: timerInv_def split: option.splits)

lemma tick_running:
  "timerInv st \<Longrightarrow> timerRunning st \<Longrightarrow> timerSeconds (tick st) = timerSeconds st + 1"
  using timerInv_running [of st] by (auto simp add: tick_single)

lemma tick_not_running: "timerInv st \<Longrightarrow> \<not> timerRunning st \<Longrightarrow> tick st = st"
  by (simp add: tick_idle timerInv_idle)



lemma reachable_seconds_nonneg: "reachable st \<Longrightarrow> 0 \<le> timerSeconds st"
proof (induction rule: reachable.induct)
  case reachable_init
  show ?case by (simp add: initialState_def)
next
  case (reachable_step st ev)
  then have inv: "timerInv st" by (simp add: reachable_timerInv)
  show ?case
  proof (cases ev)
    case (StartPause now stamp)
    with reachable_step show ?thesis by simp
  next
    case Reset
    then show ?thesis by simp
  next
    case Tick
    show ?thesis
    proof (cases "timerRunning st")
      case True
      with inv reachable_step Tick show ?thesis by (simp add: tick_running)
    next
      case False
      with inv reachable_step Tick show ?thesis by (simp add: tick_not_running)
    qed
  qed
qed

lemma run_Nil: "run [] st = st"
  by (simp add: run_def)

lemma run_Cons: "run (ev # evs) st = run evs (step ev st)"
  by (simp add: run_def)




lemma step_suffix: "suffix (activityLog st) (activityLog (step ev st))"
  by (cases ev) (simp_all add: handleStartPause_log suffix_ConsI)

lemma run_suffix: "suffix (activityLog st) (activityLog (run evs st))"
proof (induction evs arbitrary: st)
  case Nil
  show ?case by (simp add: run_Nil)
next
  case (Cons ev evs)
  have "suffix (activityLog st) (activityLog (step ev st))" by (rule step_suffix)
  moreover have "suffix (activityLog (step ev st)) (activityLog (run evs (step ev st)))"
    by (rule Cons.IH)
  ultimately show ?case by (simp add: run_Cons suffix_order.trans)
qed

lemma reachable_positive_durations:
  "reachable st \<Longrightarrow> list_all (\<lambda>e. 0 < durationSeconds e) (activityLog st)"
proof (induction rule: reachable.induct)
  case reachable_init
  show ?case by (simp add: initialState_def)
next
  case (reachable_step st ev)
  then show ?case by (cases ev) (simp_all add: handleStartPause_log)
qed

lemmas eval_defs = run_Nil run_Cons initialState_def rerender_def timerEffect_def timerEffectCleanup_def
  clearInterval_def setInterval_def handleStartPause_def handleReset_def tick_def
  intervalFires_def timerCallback_def addActivity_def Let_def

section \<open>Properties of the handlers\<close>

text \<open>
  C1. In every state (so in every state the engine reaches) in which the timer runs,
  pressing the start/pause button stops it. If \<open>timerSeconds\<close> is positive, the log
  becomes the old log with exactly one new entry in front, whose \<open>durationSeconds\<close> is
  the current \<open>timerSeconds\<close>; if it is zero, the log is unchanged.
\<close>

theorem stop_records_session:
  assumes "timerRunning st"
  shows "activityLog (step (StartPause now stamp) st) =
           (if 0 < timerSeconds st
            then \<lparr>activityId = now, description = ''Timed Session'',
                  durationSeconds = timerSeconds st, timestamp = stamp\<rparr> # activityLog st
            else activityLog st)
         \<and> \<not> timerRunning (step (StartPause now stamp) st)"
  using assms by (simp add: handleStartPause_log)


text \<open>
  The running states after two ticks and after none: the first stop records a session of
  two seconds, the second records nothing.
\<close>

theorem stop_records_session_witness:
  "timerRunning (run [StartPause 1000 1001, Tick, Tick] initialState)
   \<and> activityLog (step (StartPause 3000 3001)
         (run [StartPause 1000 1001, Tick, Tick] initialState)) =
       [\<lparr>activityId = 3000, description = ''Timed Session'',
         durationSeconds = 2, timestamp = 3001\<rparr>]
   \<and> timerRunning (run [StartPause 1000 1001] initialState)
   \<and> activityLog (step (StartPause 1002 1003) (run [StartPause 1000 1001] initialState)) = []"
proof -
  have r2: "timerRunning (run [StartPause 1000 1001, Tick, Tick] initialState)"
    by (simp add: eval_defs)
  have r0: "timerRunning (run [StartPause 1000 1001] initialState)"
    by (simp add: eval_defs)
  have s2: "timerSeconds (run [StartPause 1000 1001, Tick, Tick] initialState) = 2"
    "activityLog (run [StartPause 1000 1001, Tick, Tick] initialState) = []"
    by (simp_all add: eval_defs)
  have s0: "timerSeconds (run [StartPause 1000 1001] initialState) = 0"
    "activityLog (run [StartPause 1000 1001] initialState) = []"
    by (simp_all add: eval_defs)
  from stop_records_session [OF r2, of 3000 3001] stop_records_session [OF r0, of 1002 1003]
    r2 r0 s2 s0
  show ?thesis by (simp add: eval_defs)
qed

lemma formatTime_5: "formatTime 5 = ''00:00:05''"
  by (simp add: format_eval)

lemma formatTime_8: "formatTime 8 = ''00:00:08''"
  by (simp add: format_eval)

text \<open>
  C2, as the code behaves. From the initial state, reset, start, five ticks and stop
  leave \<open>formatTime timerSeconds\<close> at \<open>00:00:05\<close> and a log of one entry of five
  seconds. Start, three ticks and stop then give a log of exactly two entries: the head
  has \<open>durationSeconds = 8\<close>, the total since the reset, and the older entry still has
  five. The clock readings are arbitrary.
\<close>

theorem scenario_cumulative:
  "formatTime (timerSeconds
      (run [Reset, StartPause a b, Tick, Tick, Tick, Tick, Tick, StartPause c d]
         initialState)) = ''00:00:05''
   \<and> map durationSeconds (activityLog
      (run [Reset, StartPause a b, Tick, Tick, Tick, Tick, Tick, StartPause c d]
         initialState)) = [5]
   \<and> map durationSeconds (activityLog
      (run [StartPause e f, Tick, Tick, Tick, StartPause g h]
         (run [Reset, StartPause a b, Tick, Tick, Tick, Tick, Tick, StartPause c d]
            initialState))) = [8, 5]
   \<and> formatTime (timerSeconds
      (run [StartPause e f, Tick, Tick, Tick, StartPause g h]
         (run [Reset, StartPause a b, Tick, Tick, Tick, Tick, Tick, StartPause c d]
            initialState))) = ''00:00:08''"
  by (simp add: eval_defs formatTime_5 formatTime_8)

text \<open>
  The scenario as the specification words it, with a head of three seconds after the
  second stop, does not hold.
\<close>

theorem scenario_counterexample:
  "\<not> (formatTime (timerSeconds
          (run [Reset, StartPause 1000 1000, Tick, Tick, Tick, Tick, Tick,
                StartPause 6000 6000] initialState)) = ''00:00:05''
      \<and> durationSeconds (hd (activityLog
          (run [Reset, StartPause 1000 1000, Tick, Tick, Tick, Tick, Tick,
                StartPause 6000 6000] initialState))) = 5
      \<and> length (activityLog
          (run [StartPause 7000 7000, Tick, Tick, Tick, StartPause 10000 10000]
            (run [Reset, StartPause 1000 1000, Tick, Tick, Tick, Tick, Tick,
                  StartPause 6000 6000] initialState))) = 2
      \<and> durationSeconds (hd (activityLog
          (run [StartPause 7000 7000, Tick, Tick, Tick, StartPause 10000 10000]
            (run [Reset, StartPause 1000 1000, Tick, Tick, Tick, Tick, Tick,
                  StartPause 6000 6000] initialState)))) = 3
      \<and> durationSeconds (activityLog
          (run [StartPause 7000 7000, Tick, Tick, Tick, StartPause 10000 10000]
            (run [Reset, StartPause 1000 1000, Tick, Tick, Tick, Tick, Tick,
                  StartPause 6000 6000] initialState)) ! 1) = 5)"
  by (simp add: eval_defs)

text \<open>
  C4. In every state, whatever \<open>timerRunning\<close> and \<open>timerSeconds\<close> are, the reset
  handler leaves \<open>timerSeconds = 0\<close> and \<open>timerRunning = False\<close> and does not touch the
  log. In every state the engine reaches it leaves no interval scheduled, so that a
  later tick changes nothing.
\<close>

theorem reset_clears:
  "timerSeconds (step Reset st) = 0 \<and> \<not> timerRunning (step Reset st)
   \<and> activityLog (step Reset st) = activityLog st
   \<and> (reachable st \<longrightarrow>
        activeIntervals (step Reset st) = [] \<and> tick (step Reset st) = step Reset st)"
proof -
  have "activeIntervals (step Reset st) = [] \<and> tick (step Reset st) = step Reset st"
    if "reachable st"
  proof -
    from that have "reachable (step Reset st)" by (rule reachable_step)
    then have "timerInv (step Reset st)" by (rule reachable_timerInv)
    moreover have "\<not> timerRunning (step Reset st)" by simp
    ultimately show ?thesis by (simp add: timerInv_idle tick_idle)
  qed
  then show ?thesis by simp
qed

text \<open>
  A reachable state with the timer running at two seconds and interval 1 scheduled.
\<close>

theorem reset_clears_witness:
  "reachable (run [StartPause 1000 1001, Tick, Tick] initialState)
   \<and> timerRunning (run [StartPause 1000 1001, Tick, Tick] initialState)
   \<and> timerSeconds (run [StartPause 1000 1001, Tick, Tick] initialState) = 2
   \<and> activeIntervals (run [StartPause 1000 1001, Tick, Tick] initialState) = [1]
   \<and> timerSeconds (step Reset (run [StartPause 1000 1001, Tick, Tick] initialState)) = 0
   \<and> \<not> timerRunning (step Reset (run [StartPause 1000 1001, Tick, Tick] initialState))
   \<and> activeIntervals (step Reset (run [StartPause 1000 1001, Tick, Tick] initialState)) = []"
proof -
  have r: "reachable (run [StartPause 1000 1001, Tick, Tick] initialState)"
    by (rule reachable_run) (rule reachable_init)
  have "timerRunning (run [StartPause 1000 1001, Tick, Tick] initialState)"
    "timerSeconds (run [StartPause 1000 1001, Tick, Tick] initialState) = 2"
    "activeIntervals (run [StartPause 1000 1001, Tick, Tick] initialState) = [1]"
    by (simp_all add: eval_defs)
  with r reset_clears [of "run [StartPause 1000 1001, Tick, Tick] initialState"]
  show ?thesis by simp
qed

text \<open>
  Recording a session of duration zero in the empty log does change the log.
\<close>

theorem record_zero_duration_counterexample:
  "addActivity
     \<lparr>activityId = 1700000000000, description = ''Timed Session'',
      durationSeconds = 0, timestamp = 1700000000000\<rparr> [] \<noteq> []"
  by (simp add: addActivity_def)

text \<open>
  C5, as the code behaves. \<open>addActivity\<close> does not look at \<open>durationSeconds\<close>: a
  session of duration zero is put in front of the log like any other, and nothing is
  raised. Sessions of duration zero stay out of the log because of the guard of the
  caller: in every state the engine reaches, every entry of the log has a positive
  duration.
\<close>

theorem record_does_not_validate:
  "addActivity (a\<lparr>durationSeconds := 0\<rparr>) L = a\<lparr>durationSeconds := 0\<rparr> # L
   \<and> (reachable st \<longrightarrow> list_all (\<lambda>e. 0 < durationSeconds e) (activityLog st))"
  by (simp add: addActivity_def reachable_positive_durations)

text \<open>
  A reachable state: a start and a stop at zero seconds record nothing, the stop after
  one tick records one second.
\<close>

theorem record_does_not_validate_witness:
  "reachable (run [StartPause 1000 1001, StartPause 1002 1003, StartPause 1004 1005, Tick,
                   StartPause 2000 2001] initialState)
   \<and> map durationSeconds (activityLog
        (run [StartPause 1000 1001, StartPause 1002 1003, StartPause 1004 1005, Tick,
              StartPause 2000 2001] initialState)) = [1]
   \<and> list_all (\<lambda>e. 0 < durationSeconds e) (activityLog
        (run [StartPause 1000 1001, StartPause 1002 1003, StartPause 1004 1005, Tick,
              StartPause 2000 2001] initialState))"
proof -
  have r: "reachable (run [StartPause 1000 1001, StartPause 1002 1003,
             StartPause 1004 1005, Tick, StartPause 2000 2001] initialState)"
    by (rule reachable_run) (rule reachable_init)
  have "map durationSeconds (activityLog
        (run [StartPause 1000 1001, StartPause 1002 1003, StartPause 1004 1005, Tick,
              StartPause 2000 2001] initialState)) = [1]"
    by (simp add: eval_defs)
  with r record_does_not_validate [of _ _ "run [StartPause 1000 1001,
    StartPause 1002 1003, StartPause 1004 1005, Tick, StartPause 2000 2001] initialState"]
  show ?thesis by blast
qed

text \<open>
  C6. \<open>addActivity s L\<close> is exactly \<open>s # L\<close>, and the log before any operation, or
  any sequence of operations, is a suffix of the log after it: every old entry is still
  there, unchanged and in the same order, and new entries are in front.
\<close>

theorem log_grows_at_head_only:
  "addActivity s L = s # L
   \<and> suffix (activityLog st) (activityLog (step ev st))
   \<and> suffix (activityLog st) (activityLog (run evs st))"
  by (simp add: addActivity_def step_suffix run_suffix)

text \<open>
  C8. The identifier of a session is the reading of \<open>Date.now()\<close> at the stop, and
  nothing else makes it unique. Two stops that read the same millisecond record two
  sessions with the same identifier: a stop, a start and a stop within one millisecond,
  or, with a tick in between, a wall clock that has been set back.
\<close>

theorem session_id_collision:
  "map activityId (activityLog
     (run [StartPause 1000 1000, Tick, StartPause 2000 2000, StartPause 2000 2000,
           StartPause 2000 2000] initialState)) = [2000, 2000]
   \<and> map activityId (activityLog
     (run [StartPause 1000 1000, Tick, StartPause 2000 2000, StartPause 2500 2500, Tick,
           StartPause 2000 2000] initialState)) = [2000, 2000]
   \<and> map durationSeconds (activityLog
     (run [StartPause 1000 1000, Tick, StartPause 2000 2000, StartPause 2500 2500, Tick,
           StartPause 2000 2000] initialState)) = [2, 1]"
  by (simp add: eval_defs)





text \<open>
  C10. Every call of the start/pause handler negates \<open>timerRunning\<close>. Called while the
  timer does not run, it starts the timer, whatever \<open>timerSeconds\<close> is, and records
  nothing and shows no alert.
\<close>

theorem startPause_toggles:
  "timerRunning (handleStartPause now stamp st) = (\<not> timerRunning st)
   \<and> timerRunning (step (StartPause now stamp) st) = (\<not> timerRunning st)
   \<and> (\<not> timerRunning st \<longrightarrow>
        timerRunning (step (StartPause now stamp) st)
        \<and> activityLog (step (StartPause now stamp) st) = activityLog st
        \<and> alerts (step (StartPause now stamp) st) = alerts st)"
  by (simp add: handleStartPause_log handleStartPause_def Let_def)

text \<open>
  A paused state at one second: the handler starts the timer and leaves the log alone.
\<close>

theorem startPause_toggles_witness:
  "\<not> timerRunning (run [StartPause 1000 1001, Tick, StartPause 2000 2001] initialState)
   \<and> timerSeconds (run [StartPause 1000 1001, Tick, StartPause 2000 2001] initialState) = 1
   \<and> timerRunning (step (StartPause 3000 3001)
        (run [StartPause 1000 1001, Tick, StartPause 2000 2001] initialState))
   \<and> activityLog (step (StartPause 3000 3001)
        (run [StartPause 1000 1001, Tick, StartPause 2000 2001] initialState))
      = activityLog (run [StartPause 1000 1001, Tick, StartPause 2000 2001] initialState)"
proof -
  have e: "\<not> timerRunning (run [StartPause 1000 1001, Tick, StartPause 2000 2001] initialState)"
    "timerSeconds (run [StartPause 1000 1001, Tick, StartPause 2000 2001] initialState) = 1"
    by (simp_all add: eval_defs)
  from e startPause_toggles
    [of 3000 3001 "run [StartPause 1000 1001, Tick, StartPause 2000 2001] initialState"]
  show ?thesis by simp
qed

end
